theory Spec2Isabelle
  imports Complex_Main "HOL-Library.Sublist" "HOL-Library.Char_ord" "HOL-Library.Multiset"
begin

section \<open>Box management front end: search, highlighting and the QR identity codec\<close>

text \<open>
  The development embeds the pure parts of \<^verbatim>\<open>frontend/src/App.jsx\<close>: the QR locator
  built by \<^verbatim>\<open>generateQRCode\<close>, the scan handler \<^verbatim>\<open>onScanSuccess\<close>, the highlighter
  \<^verbatim>\<open>highlightMatch\<close>, the list filters \<^verbatim>\<open>filterBoxes\<close> and \<^verbatim>\<open>filterItems\<close>, and the
  quantity handling of the add-item form and of the inline item editor.

  JavaScript strings are modelled as \<^typ>\<open>string\<close>, a character standing for a code unit.
  The case mappings defined here are those of the language on ASCII text: they fold the
  letters A to Z and leave every other character alone, so they say nothing about letters
  outside ASCII. The concrete runs below are on ASCII text. Where a statement is about
  every string, the case mapping of the language is a parameter (the location filter) or
  the statement is restricted to ASCII text (the lemmas on the highlighter).
\<close>

subsection \<open>String primitives of the language\<close>

text \<open>\<^verbatim>\<open>String.prototype.toLowerCase\<close> and \<^verbatim>\<open>toUpperCase\<close>, character by character. In ASCII
  the two cases of a letter differ in bit 5 (value 32) only.\<close>

definition toLowerCase_char :: "char \<Rightarrow> char" where
  "toLowerCase_char c =
     (if CHR ''A'' \<le> c \<and> c \<le> CHR ''Z''
      then (case c of Char b0 b1 b2 b3 b4 b5 b6 b7 \<Rightarrow> Char b0 b1 b2 b3 b4 True b6 b7)
      else c)"

definition toUpperCase_char :: "char \<Rightarrow> char" where
  "toUpperCase_char c =
     (if CHR ''a'' \<le> c \<and> c \<le> CHR ''z''
      then (case c of Char b0 b1 b2 b3 b4 b5 b6 b7 \<Rightarrow> Char b0 b1 b2 b3 b4 False b6 b7)
      else c)"

definition toLowerCase :: "string \<Rightarrow> string" where
  "toLowerCase s = map toLowerCase_char s"

definition ascii_text :: "string \<Rightarrow> bool" where
  "ascii_text s = list_all (\<lambda>c. c \<le> CHR 0x7F) s"

text \<open>\<^verbatim>\<open>s.includes(sub)\<close>: some suffix of \<open>s\<close> starts with \<open>sub\<close>.\<close>

fun includes_str :: "string \<Rightarrow> string \<Rightarrow> bool" where
  "includes_str [] sub = (sub = [])"
| "includes_str (c # cs) sub = (prefix sub (c # cs) \<or> includes_str cs sub)"

text \<open>\<^verbatim>\<open>s.split(sep)\<close> for a string separator. The scan goes left to right; \<open>piece\<close> is
  the text read since the last separator. At a position where the separator starts, the
  piece is emitted and the scan resumes behind the separator, so occurrences never overlap.
  An empty separator splits into single characters.\<close>

fun split_from :: "string \<Rightarrow> string \<Rightarrow> string \<Rightarrow> string list" where
  "split_from sep piece [] = [piece]"
| "split_from sep piece (c # cs) =
     (if prefix sep (c # cs)
      then piece # split_from sep [] (drop (length sep - 1) cs)
      else split_from sep (piece @ [c]) cs)"

definition split :: "string \<Rightarrow> string \<Rightarrow> string list" where
  "split s sep = (if sep = [] then map (\<lambda>c. [c]) s else split_from sep [] s)"

text \<open>Reading an array element inside a template literal: an index beyond the end reads
  \<^verbatim>\<open>undefined\<close>, which the template prints as the word \<^verbatim>\<open>undefined\<close>.\<close>

definition template_index :: "string list \<Rightarrow> nat \<Rightarrow> string" where
  "template_index parts i = (if i < length parts then parts ! i else ''undefined'')"

subsection \<open>A fragment of regular expressions\<close>

text \<open>The two regular expressions of the program are built from single characters, character
  classes given by ranges, concatenation and capturing groups (a bounded repetition
  \<^verbatim>\<open>{n}\<close> of a class is \<open>n\<close> copies of it). Every such expression matches at most one
  string at a given position, so matching needs no backtracking. The result of a match is
  the list of captures, in the order of the opening parentheses, and the unread rest of the
  input.\<close>

datatype regex =
    Empty
  | Lit char
  | Class "(char \<times> char) list"
  | Seq regex regex
  | Group regex

text \<open>With the flag \<^verbatim>\<open>i\<close> characters are compared after canonicalisation, which is
  \<^verbatim>\<open>toUpperCase\<close> on one character; a class contains a character when it has a member
  with the same canonical form.\<close>

definition canonicalize :: "bool \<Rightarrow> char \<Rightarrow> char" where
  "canonicalize ignoreCase c = (if ignoreCase then toUpperCase_char c else c)"

definition in_ranges :: "(char \<times> char) list \<Rightarrow> char \<Rightarrow> bool" where
  "in_ranges rs c = list_ex (\<lambda>(lo, hi). lo \<le> c \<and> c \<le> hi) rs"

definition class_matches :: "bool \<Rightarrow> (char \<times> char) list \<Rightarrow> char \<Rightarrow> bool" where
  "class_matches ignoreCase rs c =
     (if ignoreCase
      then in_ranges rs c \<or> in_ranges rs (toLowerCase_char c) \<or> in_ranges rs (toUpperCase_char c)
      else in_ranges rs c)"

fun rmatch :: "bool \<Rightarrow> regex \<Rightarrow> string \<Rightarrow> (string list \<times> string) option" where
  "rmatch ic Empty s = Some ([], s)"
| "rmatch ic (Lit c) s =
     (case s of [] \<Rightarrow> None
      | d # ds \<Rightarrow> if canonicalize ic c = canonicalize ic d then Some ([], ds) else None)"
| "rmatch ic (Class rs) s =
     (case s of [] \<Rightarrow> None
      | d # ds \<Rightarrow> if class_matches ic rs d then Some ([], ds) else None)"
| "rmatch ic (Seq r1 r2) s =
     (case rmatch ic r1 s of None \<Rightarrow> None
      | Some (caps1, s1) \<Rightarrow>
          (case rmatch ic r2 s1 of None \<Rightarrow> None
           | Some (caps2, s2) \<Rightarrow> Some (caps1 @ caps2, s2)))"
| "rmatch ic (Group r) s =
     (case rmatch ic r s of None \<Rightarrow> None
      | Some (caps, s') \<Rightarrow> Some (take (length s - length s') s # caps, s'))"

fun times :: "nat \<Rightarrow> regex \<Rightarrow> regex" where
  "times 0 r = Empty"
| "times (Suc n) r = Seq r (times n r)"

text \<open>A pattern anchored by \<^verbatim>\<open>^\<close> and \<^verbatim>\<open>$\<close> (no \<^verbatim>\<open>m\<close> flag) matches exactly when its
  body matches the whole input.\<close>

definition match_anchored :: "bool \<Rightarrow> regex \<Rightarrow> string \<Rightarrow> bool" where
  "match_anchored ic r s = (case rmatch ic r s of Some (caps, []) \<Rightarrow> True | _ \<Rightarrow> False)"

subsection \<open>The identity codec\<close>

text \<open>\<^verbatim>\<open>generateQRCode\<close> renders the locator
  \<^verbatim>\<open>`${window.location.origin}/box/${box.id}`\<close>; the QR image carries exactly this text.\<close>

definition generateQRCode_url :: "string \<Rightarrow> string \<Rightarrow> string" where
  "generateQRCode_url origin boxId = origin @ ''/box/'' @ boxId"

text \<open>The bare-identifier pattern of \<^verbatim>\<open>onScanSuccess\<close>:
  \<^verbatim>\<open>/^[0-9a-f]{8}-[0-9a-f]{4}-[0-9a-f]{4}-[0-9a-f]{4}-[0-9a-f]{12}$/i\<close>.\<close>

definition hex_class :: regex where
  "hex_class = Class [(CHR ''0'', CHR ''9''), (CHR ''a'', CHR ''f'')]"

definition uuid_body :: regex where
  "uuid_body =
     Seq (times 8 hex_class) (Seq (Lit CHR ''-'')
    (Seq (times 4 hex_class) (Seq (Lit CHR ''-'')
    (Seq (times 4 hex_class) (Seq (Lit CHR ''-'')
    (Seq (times 4 hex_class) (Seq (Lit CHR ''-'')
         (times 12 hex_class))))))))"

definition uuid_match :: "string \<Rightarrow> bool" where
  "uuid_match s = match_anchored True uuid_body s"

text \<open>The scan handler acts on two pieces of interface state: the router history, to which
  \<^verbatim>\<open>navigate\<close> pushes a path, and the flag that keeps the scanner dialog open, which the
  \<^verbatim>\<open>onClose\<close> callback passed by the application clears.\<close>

record ui_state =
  history :: "string list"
  showScanner :: bool

definition navigate :: "string \<Rightarrow> ui_state \<Rightarrow> ui_state" where
  "navigate path st = st\<lparr>history := path # history st\<rparr>"

definition onClose :: "ui_state \<Rightarrow> ui_state" where
  "onClose st = st\<lparr>showScanner := False\<rparr>"

definition onScanSuccess :: "string \<Rightarrow> ui_state \<Rightarrow> ui_state" where
  "onScanSuccess decodedText st =
     onClose
       (if includes_str decodedText ''/box/''
        then (let boxId = template_index (split decodedText ''/box/'') 1
              in navigate (''/box/'' @ boxId) st)
        else if uuid_match decodedText
        then navigate (''/box/'' @ decodedText) st
        else st)"

text \<open>The lexical shape of a canonical identifier in the words of the specification:
  five groups of 8, 4, 4, 4 and 12 hexadecimal digits, of either case, joined by hyphens.\<close>

definition is_hex_digit :: "char \<Rightarrow> bool" where
  "is_hex_digit c = (c \<in> set ''0123456789abcdefABCDEF'')"

definition uuid_shape :: "string \<Rightarrow> bool" where
  "uuid_shape s = (\<exists>g1 g2 g3 g4 g5.
      s = g1 @ ''-'' @ g2 @ ''-'' @ g3 @ ''-'' @ g4 @ ''-'' @ g5 \<and>
      length g1 = 8 \<and> length g2 = 4 \<and> length g3 = 4 \<and> length g4 = 4 \<and> length g5 = 12 \<and>
      (\<forall>c \<in> set (g1 @ g2 @ g3 @ g4 @ g5). is_hex_digit c))"

text \<open>The shape of \<^verbatim>\<open>window.location.origin\<close>: a scheme, the separator \<^verbatim>\<open>://\<close> and a host with
  an optional port; neither the scheme nor the host part contains a slash.\<close>

definition origin_shape :: "string \<Rightarrow> bool" where
  "origin_shape origin = (\<exists>scheme host.
      origin = scheme @ ''://'' @ host \<and> scheme \<noteq> [] \<and> host \<noteq> [] \<and>
      CHR ''/'' \<notin> set scheme \<and> CHR ''/'' \<notin> set host)"

subsection \<open>The highlighter\<close>

text \<open>\<^verbatim>\<open>new RegExp(source, 'gi')\<close> on the fragment: a character that is not a syntax
  character stands for itself, parentheses form capturing groups. An unbalanced parenthesis
  makes the constructor throw \<^verbatim>\<open>SyntaxError\<close>. A source that uses any other syntax
  character lies outside the fragment, and the model gives no result for it
  (\<open>Unsupported\<close>). The source is read left to right; \<open>stack\<close> holds the sequences of the
  groups that are still open, \<open>cur\<close> the sequence being read.\<close>

datatype failure = SyntaxError | Unsupported

definition is_syntax_char :: "char \<Rightarrow> bool" where
  "is_syntax_char c = (c \<in> set ''^$.*+?()[]{}|'' \<or> c = CHR 0x5C)"

fun parse_pattern :: "regex list \<Rightarrow> regex \<Rightarrow> string \<Rightarrow> failure + regex" where
  "parse_pattern stack cur [] = (if stack = [] then Inr cur else Inl SyntaxError)"
| "parse_pattern stack cur (c # cs) =
     (if c = CHR ''('' then parse_pattern (cur # stack) Empty cs
      else if c = CHR '')'' then
        (case stack of [] \<Rightarrow> Inl SyntaxError
         | outer # stack' \<Rightarrow> parse_pattern stack' (Seq outer (Group cur)) cs)
      else if is_syntax_char c then Inl Unsupported
      else parse_pattern stack (Seq cur (Lit c)) cs)"

definition RegExp :: "string \<Rightarrow> failure + regex" where
  "RegExp source = parse_pattern [] Empty source"

text \<open>\<^verbatim>\<open>text.split(regexp)\<close>. The scan tries the expression at every position \<open>q\<close>; \<open>piece\<close>
  is the text between the end \<open>p\<close> of the last match and \<open>q\<close>. A match that ends at \<open>p\<close>
  (an empty match right behind the last one) is skipped; any other match emits the piece
  and then every capture of the expression, and the scan resumes behind the match. On the
  empty text the result is empty when the expression matches it, and the text alone
  otherwise.\<close>

function split_loop :: "regex \<Rightarrow> string \<Rightarrow> string \<Rightarrow> string list" where
  "split_loop re piece [] = [piece]"
| "split_loop re piece (c # cs) =
     (case rmatch True re (c # cs) of
        None \<Rightarrow> split_loop re (piece @ [c]) cs
      | Some (caps, rest) \<Rightarrow>
          if piece = [] \<and> length rest = Suc (length cs)
          then split_loop re (piece @ [c]) cs
          else piece # caps @ split_loop re [] rest)"
  by pat_completeness auto
termination
proof (relation "measure (\<lambda>(re, piece, s). 2 * length s + (if piece = [] then 0 else 1))")
  have shorter: "length rest \<le> length s" if "rmatch ic r s = Some (caps, rest)"
    for ic r s caps rest
    using that
    by (induction ic r s arbitrary: caps rest rule: rmatch.induct)
       (fastforce split: list.splits if_splits option.splits)+
  fix re :: regex and piece :: string and c :: char and cs :: string
    and x2 :: "string list \<times> string" and caps :: "string list" and rest :: string
  assume m: "rmatch True re (c # cs) = Some x2" "(caps, rest) = x2"
    and n: "\<not> (piece = [] \<and> length rest = Suc (length cs))"
  from m have "length rest \<le> length (c # cs)" using shorter[of True re "c # cs" caps rest] by simp
  with n show "((re, [], rest), (re, piece, c # cs))
      \<in> measure (\<lambda>(re, piece, s). 2 * length s + (if piece = [] then 0 else 1))"
    by auto
qed auto

definition regex_split :: "regex \<Rightarrow> string \<Rightarrow> string list" where
  "regex_split re s =
     (if s = [] then (case rmatch True re [] of None \<Rightarrow> [[]] | Some m \<Rightarrow> [])
      else split_loop re [] s)"

text \<open>\<^verbatim>\<open>highlightMatch\<close>: a segment is a text and the flag that it is rendered inside
  \<^verbatim>\<open><mark>\<close>. With a falsy search the text is returned as it is, one unmarked segment.\<close>

type_synonym segment = "string \<times> bool"

definition highlightMatch :: "string \<Rightarrow> string \<Rightarrow> failure + segment list" where
  "highlightMatch text search =
     (if search = [] then Inr [(text, False)]
      else (case RegExp (''('' @ search @ '')'') of
              Inl f \<Rightarrow> Inl f
            | Inr re \<Rightarrow>
                Inr (map (\<lambda>part. (part, toLowerCase part = toLowerCase search))
                         (regex_split re text))))"

text \<open>A query without syntax characters, and the expression that a run of such
  characters parses to.\<close>

definition literal_query :: "string \<Rightarrow> bool" where
  "literal_query q = (q \<noteq> [] \<and> list_all (\<lambda>c. \<not> is_syntax_char c) q)"

abbreviation literals :: "regex \<Rightarrow> string \<Rightarrow> regex" where
  "literals r q \<equiv> foldl (\<lambda>r c. Seq r (Lit c)) r q"

text \<open>The literal occurrences of a query in the words of the specification: a left-to-right
  scan that marks a stretch of the text equal to the query up to case and resumes behind
  it.\<close>

fun literal_segments :: "string \<Rightarrow> string \<Rightarrow> string \<Rightarrow> segment list" where
  "literal_segments query piece [] = [(piece, False)]"
| "literal_segments query piece (c # cs) =
     (if toLowerCase (take (length query) (c # cs)) = toLowerCase query
      then (piece, False) # (take (length query) (c # cs), True)
             # literal_segments query [] (drop (length query - 1) cs)
      else literal_segments query (piece @ [c]) cs)"

subsection \<open>The fuzzy matcher and the list filters\<close>

text \<open>The records of the two collections, with the fields the front end reads. A location,
  description or details field may be absent.\<close>

record box_record =
  box_id :: string
  box_name :: string
  box_location :: "string option"
  box_description :: "string option"
  item_count :: nat

datatype js_number = NaN | Num int

record item_record =
  item_id :: string
  item_box_id :: string
  item_name :: string
  item_quantity :: js_number
  item_details :: "string option"

text \<open>The options object that \<^verbatim>\<open>filterBoxes\<close> and \<^verbatim>\<open>filterItems\<close> pass to the matcher. The
  numeric literal \<^verbatim>\<open>0.4\<close> denotes the double \<open>3602879701896397 / 2\<^sup>5\<^sup>3\<close>; scores are
  doubles as well, and doubles compare as the rationals they denote.\<close>

record fuse_options =
  keys :: "string list"
  threshold :: rat
  minMatchCharLength :: nat

definition js_0_4 :: rat where
  "js_0_4 = 3602879701896397 / 9007199254740992"

definition boxOptions :: fuse_options where
  "boxOptions = \<lparr>keys = [''name'', ''location'', ''description''],
                  threshold = js_0_4, minMatchCharLength = 1\<rparr>"

definition itemOptions :: fuse_options where
  "itemOptions = \<lparr>keys = [''name'', ''details''],
                   threshold = js_0_4, minMatchCharLength = 1\<rparr>"

text \<open>Modelled from the spec: the fuzzy matching library (the class \<^verbatim>\<open>Fuse\<close> that
  \<^verbatim>\<open>App.jsx\<close> imports from \<^verbatim>\<open>fuse.js\<close>) is not part of the sources. A result of its search
  is a MatchResult of the data model: the record, its position in the collection and its
  score.\<close>

record 'r fuse_result =
  item :: 'r
  refIndex :: nat
  score :: rat

text \<open>Modelled from the spec: the scoring of the library, which is not part of the sources,
  is a parameter. It gives a record of the collection its score for a query under the
  options (0 is a perfect match, larger is worse).\<close>

type_synonym 'r scorer = "fuse_options \<Rightarrow> string \<Rightarrow> 'r \<Rightarrow> rat"

text \<open>Modelled from the spec: the candidates of a search, which the library computes and
  which is not part of the sources, are the records of the collection, each scored and
  tagged with its position.\<close>

definition fuse_candidates :: "'r scorer \<Rightarrow> fuse_options \<Rightarrow> 'r list \<Rightarrow> string \<Rightarrow> 'r fuse_result list" where
  "fuse_candidates scorer opts docs pattern =
     map (\<lambda>(i, d). \<lparr>item = d, refIndex = i, score = scorer opts pattern d\<rparr>) (enumerate 0 docs)"

text \<open>Modelled from the spec: the method \<^verbatim>\<open>search\<close> of the library is not part of the
  sources. It follows section 4.1 and the data model of the specification: a candidate whose
  score is above the configured threshold is excluded (the threshold is the maximum allowed
  score), and the results are in ascending order of score, ties in the original order of the
  collection (a stable sort).\<close>

definition fuse_search :: "'r scorer \<Rightarrow> fuse_options \<Rightarrow> 'r list \<Rightarrow> string \<Rightarrow> 'r fuse_result list" where
  "fuse_search scorer opts docs pattern =
     sort_key score
       (filter (\<lambda>r. score r \<le> threshold opts) (fuse_candidates scorer opts docs pattern))"

text \<open>\<^verbatim>\<open>filterBoxes\<close> computes the new value of \<^verbatim>\<open>filteredBoxes\<close> from the component state
  \<^verbatim>\<open>boxes\<close>, \<^verbatim>\<open>searchTerm\<close> and \<^verbatim>\<open>locationFilter\<close>. An empty string is falsy, every other
  string is truthy. The optional chain \<^verbatim>\<open>box.location?.toLowerCase().includes(...)\<close> is
  \<^verbatim>\<open>undefined\<close>, hence falsy, for a box without location. The method
  \<^verbatim>\<open>String.prototype.toLowerCase\<close> belongs to the language, not to the program: it is the
  parameter \<open>lower\<close>, and what is proved of the filter holds of every case mapping, the
  one of the language on all of Unicode included.\<close>

definition location_matches :: "(string \<Rightarrow> string) \<Rightarrow> string \<Rightarrow> box_record \<Rightarrow> bool" where
  "location_matches lower locationFilter box =
     (case box_location box of
        None \<Rightarrow> False
      | Some l \<Rightarrow> includes_str (lower l) (lower locationFilter))"

definition filterBoxes ::
  "(string \<Rightarrow> string) \<Rightarrow> box_record scorer \<Rightarrow> box_record list \<Rightarrow> string \<Rightarrow> string
     \<Rightarrow> box_record list" where
  "filterBoxes lower scorer boxes searchTerm locationFilter =
     (let filtered = boxes;
          filtered = (if searchTerm \<noteq> []
                      then map item (fuse_search scorer boxOptions filtered searchTerm)
                      else filtered);
          filtered = (if locationFilter \<noteq> []
                      then filter (location_matches lower locationFilter) filtered
                      else filtered)
      in filtered)"

text \<open>\<^verbatim>\<open>filterItems\<close> computes the new value of \<^verbatim>\<open>filteredItems\<close> in the same way.\<close>

definition filterItems :: "'r scorer \<Rightarrow> 'r list \<Rightarrow> string \<Rightarrow> 'r list" where
  "filterItems scorer items searchTerm =
     (if searchTerm = [] then items
      else map item (fuse_search scorer itemOptions items searchTerm))"

text \<open>Two scorings used to run the filters on concrete collections. The first finds an
  item a perfect match when its name contains the query up to case and completely
  dissimilar otherwise (by section 4.1 of the specification a one-character query matches
  only fields that contain the character). The second reads the score stored with the
  record.\<close>

definition name_scorer :: "item_record scorer" where
  "name_scorer opts pattern r =
     (if includes_str (toLowerCase (item_name r)) (toLowerCase pattern) then 0 else 1)"

definition stored_scorer :: "('a \<times> rat) scorer" where
  "stored_scorer opts pattern r = snd r"

text \<open>Two items and two boxes for the query \<^verbatim>\<open>ab\<close>. Every searched field of the first of
  each is \<^verbatim>\<open>ax\<close>, which differs from the query in one of its two characters: its
  dissimilarity is one half. The name of the second is the query itself: a perfect
  match.\<close>

definition item_ax :: item_record where
  "item_ax = \<lparr>item_id = ''i1'', item_box_id = ''b1'', item_name = ''ax'',
              item_quantity = Num 1, item_details = Some ''ax''\<rparr>"

definition item_ab :: item_record where
  "item_ab = \<lparr>item_id = ''i2'', item_box_id = ''b1'', item_name = ''ab'',
              item_quantity = Num 1, item_details = None\<rparr>"

definition box_ax :: box_record where
  "box_ax = \<lparr>box_id = ''b1'', box_name = ''ax'', box_location = Some ''ax'',
             box_description = Some ''ax'', item_count = 1\<rparr>"

definition box_ab :: box_record where
  "box_ab = \<lparr>box_id = ''b2'', box_name = ''ab'', box_location = None,
             box_description = None, item_count = 0\<rparr>"

definition box_sample_scorer :: "box_record scorer" where
  "box_sample_scorer opts pattern b = (if box_name b = pattern then 0 else 1 / 2)"

text \<open>The order of a result list in the words of the specification: ascending by score,
  ties by the position in the collection.\<close>

definition ranked_before :: "'r fuse_result \<Rightarrow> 'r fuse_result \<Rightarrow> bool" where
  "ranked_before a b = (score a < score b \<or> (score a = score b \<and> refIndex a < refIndex b))"

subsection \<open>Item quantities\<close>

text \<open>\<^verbatim>\<open>parseInt(string)\<close> without radix: leading white space is skipped, a sign is read, the
  prefix \<^verbatim>\<open>0x\<close> selects radix 16, and the longest run of digits of the radix is the value;
  without a digit the result is \<^verbatim>\<open>NaN\<close>. The model keeps the exact integer, where the
  language rounds a value beyond \<open>2\<^sup>5\<^sup>3\<close> to a double, and it skips the white space of ASCII,
  where the language also skips the other Unicode spaces such as U+00A0. The values of a
  number input with at most fifteen digits lie inside both limits.\<close>

definition is_white_space :: "char \<Rightarrow> bool" where
  "is_white_space c = (c \<in> set [CHR '' '', CHR 0x09, CHR 0x0A, CHR 0x0B, CHR 0x0C, CHR 0x0D])"

definition digit_of :: "char \<Rightarrow> nat option" where
  "digit_of c =
     (if CHR ''0'' \<le> c \<and> c \<le> CHR ''9'' then Some (of_char c - 48)
      else if CHR ''a'' \<le> c \<and> c \<le> CHR ''z'' then Some (of_char c - 87)
      else if CHR ''A'' \<le> c \<and> c \<le> CHR ''Z'' then Some (of_char c - 55)
      else None)"

definition radix_digit :: "nat \<Rightarrow> char \<Rightarrow> nat option" where
  "radix_digit R c = (case digit_of c of None \<Rightarrow> None | Some d \<Rightarrow> if d < R then Some d else None)"

definition is_radix_digit :: "nat \<Rightarrow> char \<Rightarrow> bool" where
  "is_radix_digit R c = (radix_digit R c \<noteq> None)"

fun digits_value :: "nat \<Rightarrow> nat \<Rightarrow> string \<Rightarrow> nat" where
  "digits_value R acc [] = acc"
| "digits_value R acc (c # cs) =
     digits_value R (acc * R + (case radix_digit R c of None \<Rightarrow> 0 | Some d \<Rightarrow> d)) cs"

definition parseInt :: "string \<Rightarrow> js_number" where
  "parseInt string =
     (let S = dropWhile is_white_space string;
          sign = (if prefix ''-'' S then - 1 else 1);
          S = (if prefix ''+'' S \<or> prefix ''-'' S then tl S else S);
          hex = (prefix ''0x'' S \<or> prefix ''0X'' S);
          R = (if hex then 16 else 10);
          S = (if hex then drop 2 S else S);
          Z = takeWhile (is_radix_digit R) S
      in if Z = [] then NaN else Num (sign * int (digits_value R 0 Z)))"

text \<open>\<^verbatim>\<open>x || 1\<close> on a number: zero and \<^verbatim>\<open>NaN\<close> are falsy.\<close>

definition or_one :: "js_number \<Rightarrow> js_number" where
  "or_one x = (case x of NaN \<Rightarrow> Num 1 | Num k \<Rightarrow> if k = 0 then Num 1 else Num k)"

definition trim :: "string \<Rightarrow> string" where
  "trim s = rev (dropWhile is_white_space (rev (dropWhile is_white_space s)))"

text \<open>The add-item form: \<^verbatim>\<open>formData\<close> starts with quantity 1, the change handler of the
  quantity input stores \<^verbatim>\<open>parseInt(e.target.value) || 1\<close>, and \<^verbatim>\<open>handleSubmit\<close> hands the
  form data to \<^verbatim>\<open>handleAddItem\<close>, which posts it with the box identifier, when the trimmed
  name is not empty.\<close>

record item_payload =
  payload_name :: string
  payload_quantity :: js_number
  payload_details :: string

definition initial_formData :: item_payload where
  "initial_formData = \<lparr>payload_name = [], payload_quantity = Num 1, payload_details = []\<rparr>"

definition quantity_onChange :: "string \<Rightarrow> item_payload \<Rightarrow> item_payload" where
  "quantity_onChange v formData = formData\<lparr>payload_quantity := or_one (parseInt v)\<rparr>"

definition handleSubmit :: "item_payload \<Rightarrow> item_payload option" where
  "handleSubmit formData = (if trim (payload_name formData) \<noteq> [] then Some formData else None)"

text \<open>The inline editor of \<^verbatim>\<open>BoxDetail\<close>: the Save button reads the three inputs and hands
  \<^verbatim>\<open>{ name, quantity: parseInt(value), details }\<close> to \<^verbatim>\<open>handleUpdateItem\<close>, which puts it to
  the server.\<close>

definition save_onClick :: "string \<Rightarrow> string \<Rightarrow> string \<Rightarrow> item_payload" where
  "save_onClick name_value quantity_value details_value =
     \<lparr>payload_name = name_value, payload_quantity = parseInt quantity_value,
      payload_details = details_value\<rparr>"

text \<open>The invariant of the data model: a quantity is an integer and at least 1.\<close>

definition valid_quantity :: "js_number \<Rightarrow> bool" where
  "valid_quantity q = (case q of NaN \<Rightarrow> False | Num k \<Rightarrow> 1 \<le> k)"

section \<open>Properties of the identity codec\<close>

subsection \<open>Searching and splitting\<close>

lemma includes_str_sublist: "includes_str s sub \<longleftrightarrow> sublist sub s"
  by (induction s) (auto simp: sublist_Cons_right)

lemma split_from_no_sep:
  "\<not> sublist sep s \<Longrightarrow> split_from sep piece s = [piece @ s]"
proof (induction s arbitrary: piece)
  case Nil
  then show ?case by simp
next
  case (Cons c cs)
  from Cons.prems have np: "\<not> prefix sep (c # cs)" and ns: "\<not> sublist sep cs"
    by (auto simp: sublist_Cons_right)
  from Cons.IH[OF ns] np show ?case by simp
qed

lemma prefix_short:
  assumes "prefix sep (xs @ ys)" "length sep \<le> length xs"
  shows "prefix sep xs"
  using assms prefix_length_prefix[of sep "xs @ ys" xs] by simp

text \<open>Up to the first occurrence of the separator the scan only collects the piece.\<close>

lemma split_from_first:
  assumes "sep \<noteq> []" "\<not> sublist sep (pre @ butlast sep)"
  shows "split_from sep piece (pre @ sep @ rest) = (piece @ pre) # split_from sep [] rest"
  using assms
proof (induction pre arbitrary: piece)
  case Nil
  then obtain a as where sep: "sep = a # as" by (cases sep) auto
  show ?case by (simp add: sep)
next
  case (Cons c cs)
  have "\<not> prefix sep ((c # cs) @ sep @ rest)"
  proof
    assume p: "prefix sep ((c # cs) @ sep @ rest)"
    obtain bs l where sep: "sep = bs @ [l]"
      using Cons.prems(1) by (cases sep rule: rev_cases) auto
    have "(c # cs) @ sep @ rest = ((c # cs) @ bs) @ (l # rest)"
      by (simp add: sep)
    with p have "prefix sep (((c # cs) @ bs) @ (l # rest))" by metis
    moreover have "length sep \<le> length ((c # cs) @ bs)"
      by (simp add: sep)
    ultimately have "prefix sep ((c # cs) @ bs)" by (rule prefix_short)
    then have "prefix sep ((c # cs) @ butlast sep)" by (simp add: sep)
    then have "sublist sep ((c # cs) @ butlast sep)" by (rule prefix_imp_sublist)
    with Cons.prems(2) show False by simp
  qed
  moreover have "\<not> sublist sep (cs @ butlast sep)"
    using Cons.prems(2) by (auto simp: sublist_Cons_right)
  ultimately show ?case using Cons.IH[OF Cons.prems(1), of "piece @ [c]"] by simp
qed

text \<open>A text that contains the separator has a first occurrence of it.\<close>

lemma first_occurrence:
  assumes "sublist sep t" "sep \<noteq> []"
  shows "\<exists>pre rest. t = pre @ sep @ rest \<and> \<not> sublist sep (pre @ butlast sep)"
  using assms(1)
proof (induction t)
  case Nil
  with assms(2) show ?case by simp
next
  case (Cons c cs)
  show ?case
  proof (cases "prefix sep (c # cs)")
    case True
    then obtain rest where "c # cs = sep @ rest" by (auto simp: prefix_def)
    moreover have "\<not> sublist sep (butlast sep)"
    proof
      assume "sublist sep (butlast sep)"
      then have "length sep \<le> length (butlast sep)" by (rule sublist_length_le)
      with assms(2) show False by (cases sep rule: rev_cases) auto
    qed
    ultimately show ?thesis by (intro exI[of _ "[]"] exI[of _ rest]) simp
  next
    case False
    with Cons.prems have "sublist sep cs" by (simp add: sublist_Cons_right)
    from Cons.IH[OF this] obtain pre rest
      where t: "cs = pre @ sep @ rest" and n: "\<not> sublist sep (pre @ butlast sep)" by blast
    have "\<not> prefix sep (c # pre @ butlast sep)"
    proof
      assume "prefix sep (c # pre @ butlast sep)"
      moreover have "prefix (c # pre @ butlast sep) (c # cs)"
        unfolding t using assms(2) by (cases sep rule: rev_cases) auto
      ultimately have "prefix sep (c # cs)" by (rule prefix_order.trans)
      with False show False by simp
    qed
    with n have "\<not> sublist sep ((c # pre) @ butlast sep)" by (simp add: sublist_Cons_right)
    with t show ?thesis by (intro exI[of _ "c # pre"] exI[of _ rest]) simp
  qed
qed

lemma split_marker_first:
  assumes "\<not> sublist ''/box/'' (pre @ ''/box'')"
  shows "split (pre @ ''/box/'' @ rest) ''/box/'' = pre # split_from ''/box/'' [] rest"
  using split_from_first[of "''/box/''" pre "[]" rest] assms by (simp add: split_def)

lemma onScanSuccess_locator:
  assumes "includes_str t ''/box/''"
  shows "onScanSuccess t st =
    st\<lparr>history := (''/box/'' @ template_index (split t ''/box/'') 1) # history st,
       showScanner := False\<rparr>"
  using assms by (simp add: onScanSuccess_def navigate_def onClose_def)

subsection \<open>The bare-identifier pattern recognises exactly the identifier shape\<close>

lemma hex_class_matches:
  "class_matches True [(CHR ''0'', CHR ''9''), (CHR ''a'', CHR ''f'')] c = is_hex_digit c"
  apply (cases c)
  apply (simp add: class_matches_def in_ranges_def is_hex_digit_def toLowerCase_char_def
      toUpperCase_char_def less_eq_char_def)
  done

lemma rmatch_times_hex_intro:
  "length g = n \<Longrightarrow> \<forall>c \<in> set g. is_hex_digit c \<Longrightarrow>
     rmatch True (times n hex_class) (g @ rest) = Some ([], rest)"
proof (induction n arbitrary: g)
  case 0
  then show ?case by simp
next
  case (Suc n)
  then obtain c g' where g: "g = c # g'" by (cases g) auto
  with Suc.prems have "length g' = n" "\<forall>c \<in> set g'. is_hex_digit c" "is_hex_digit c" by auto
  with Suc.IH[of g'] show ?case
    by (simp add: g hex_class_def hex_class_matches)
qed

lemma rmatch_times_hex_elim:
  "rmatch True (times n hex_class) s = Some (caps, rest) \<Longrightarrow>
     \<exists>g. s = g @ rest \<and> length g = n \<and> (\<forall>c \<in> set g. is_hex_digit c) \<and> caps = []"
proof (induction n arbitrary: s caps)
  case 0
  then show ?case by simp
next
  case (Suc n)
  from Suc.prems obtain c cs where s: "s = c # cs" and hc: "is_hex_digit c"
    and m: "rmatch True (times n hex_class) cs = Some (caps, rest)"
    by (auto simp: hex_class_def hex_class_matches split: list.splits if_splits option.splits)
  from Suc.IH[OF m] obtain g
    where "cs = g @ rest" "length g = n" "\<forall>c \<in> set g. is_hex_digit c" "caps = []"
    by blast
  with s hc show ?case by (intro exI[of _ "c # g"]) auto
qed

lemma rmatch_dash_elim:
  "rmatch True (Lit CHR ''-'') s = Some (caps, rest) \<Longrightarrow> s = CHR ''-'' # rest \<and> caps = []"
  apply (cases s)
   apply simp
  subgoal for d ds
    apply (cases d)
    apply (simp add: canonicalize_def toUpperCase_char_def less_eq_char_def split: if_splits)
    done
  done

lemma rmatch_dash_intro: "rmatch True (Lit CHR ''-'') (CHR ''-'' # rest) = Some ([], rest)"
  by (simp add: canonicalize_def)

lemma uuid_match_shape: "uuid_match s \<longleftrightarrow> uuid_shape s"
proof
  assume "uuid_shape s"
  then obtain g1 g2 g3 g4 g5 where
    s: "s = g1 @ ''-'' @ g2 @ ''-'' @ g3 @ ''-'' @ g4 @ ''-'' @ g5"
    and l: "length g1 = 8" "length g2 = 4" "length g3 = 4" "length g4 = 4" "length g5 = 12"
    and h: "\<forall>c \<in> set g1. is_hex_digit c" "\<forall>c \<in> set g2. is_hex_digit c"
       "\<forall>c \<in> set g3. is_hex_digit c" "\<forall>c \<in> set g4. is_hex_digit c"
       "\<forall>c \<in> set g5. is_hex_digit c"
    unfolding uuid_shape_def by auto
  have e: "rmatch True (times 12 hex_class) g5 = Some ([], [])"
    using rmatch_times_hex_intro[OF l(5) h(5), of "[]"] by simp
  show "uuid_match s"
    unfolding uuid_match_def match_anchored_def uuid_body_def s
    by (simp only: rmatch.simps(4) rmatch_times_hex_intro[OF l(1) h(1)]
        rmatch_times_hex_intro[OF l(2) h(2)] rmatch_times_hex_intro[OF l(3) h(3)]
        rmatch_times_hex_intro[OF l(4) h(4)] e
        rmatch_dash_intro append_Cons append_Nil option.case prod.case list.case)
next
  assume "uuid_match s"
  then obtain caps where m: "rmatch True uuid_body s = Some (caps, [])"
    unfolding uuid_match_def match_anchored_def by (auto split: option.splits list.splits)
  from m obtain c1 s1 c2 s2 c3 s3 c4 s4 c5 s5 c6 s6 c7 s7 c8 s8 c9 where
    a: "rmatch True (times 8 hex_class) s = Some (c1, s1)"
       "rmatch True (Lit CHR ''-'') s1 = Some (c2, s2)"
       "rmatch True (times 4 hex_class) s2 = Some (c3, s3)"
       "rmatch True (Lit CHR ''-'') s3 = Some (c4, s4)"
       "rmatch True (times 4 hex_class) s4 = Some (c5, s5)"
       "rmatch True (Lit CHR ''-'') s5 = Some (c6, s6)"
       "rmatch True (times 4 hex_class) s6 = Some (c7, s7)"
       "rmatch True (Lit CHR ''-'') s7 = Some (c8, s8)"
       "rmatch True (times 12 hex_class) s8 = Some (c9, [])"
    unfolding uuid_body_def rmatch.simps(4)
    by (auto split: option.splits)
  from a(1) obtain g1 where g1: "s = g1 @ s1" "length g1 = 8" "\<forall>c \<in> set g1. is_hex_digit c"
    using rmatch_times_hex_elim by blast
  from a(2) have d1: "s1 = CHR ''-'' # s2" using rmatch_dash_elim by blast
  from a(3) obtain g2 where g2: "s2 = g2 @ s3" "length g2 = 4" "\<forall>c \<in> set g2. is_hex_digit c"
    using rmatch_times_hex_elim by blast
  from a(4) have d2: "s3 = CHR ''-'' # s4" using rmatch_dash_elim by blast
  from a(5) obtain g3 where g3: "s4 = g3 @ s5" "length g3 = 4" "\<forall>c \<in> set g3. is_hex_digit c"
    using rmatch_times_hex_elim by blast
  from a(6) have d3: "s5 = CHR ''-'' # s6" using rmatch_dash_elim by blast
  from a(7) obtain g4 where g4: "s6 = g4 @ s7" "length g4 = 4" "\<forall>c \<in> set g4. is_hex_digit c"
    using rmatch_times_hex_elim by blast
  from a(8) have d4: "s7 = CHR ''-'' # s8" using rmatch_dash_elim by blast
  from a(9) obtain g5 where g5: "s8 = g5 @ []" "length g5 = 12" "\<forall>c \<in> set g5. is_hex_digit c"
    using rmatch_times_hex_elim by blast
  show "uuid_shape s"
    unfolding uuid_shape_def
    apply (rule exI[of _ g1], rule exI[of _ g2], rule exI[of _ g3], rule exI[of _ g4],
        rule exI[of _ g5])
    using g1 g2 g3 g4 g5 d1 d2 d3 d4 by auto
qed

text \<open>Evaluating the pattern on a concrete text.\<close>

lemmas uuid_eval = uuid_match_def match_anchored_def uuid_body_def hex_class_def
  eval_nat_numeral class_matches_def in_ranges_def canonicalize_def toLowerCase_char_def
  toUpperCase_char_def less_eq_char_def

subsection \<open>The scan handler\<close>

text \<open>Claim C9. The locator recogniser is split based. When the scanned text is \<open>pre\<close>, the
  marker \<^verbatim>\<open>/box/\<close> and \<open>rest\<close>, with no earlier occurrence of the marker, the handler
  navigates to the box whose identifier is the part of \<open>rest\<close> before the next occurrence of
  the marker in it (\<open>mid\<close>), and to the whole of \<open>rest\<close> only when the marker does not occur
  in it again. The scanner dialog is closed.\<close>

theorem C9_locator_extraction_is_split_based:
  assumes "decodedText = pre @ ''/box/'' @ rest"
    and "\<not> sublist ''/box/'' (pre @ ''/box'')"
  shows "(rest = mid @ ''/box/'' @ post \<and> \<not> sublist ''/box/'' (mid @ ''/box'') \<longrightarrow>
            onScanSuccess decodedText st =
              st\<lparr>history := (''/box/'' @ mid) # history st, showScanner := False\<rparr>)
       \<and> (\<not> sublist ''/box/'' rest \<longrightarrow>
            onScanSuccess decodedText st =
              st\<lparr>history := (''/box/'' @ rest) # history st, showScanner := False\<rparr>)"
proof -
  have inc: "includes_str decodedText ''/box/''"
    unfolding includes_str_sublist assms(1) by (rule sublist_appendI)
  have sp: "split decodedText ''/box/'' = pre # split_from ''/box/'' [] rest"
    unfolding assms(1) by (rule split_marker_first[OF assms(2)])
  have one: "template_index (split decodedText ''/box/'') 1 = mid"
    if "rest = mid @ ''/box/'' @ post" "\<not> sublist ''/box/'' (mid @ ''/box'')"
  proof -
    have "split_from ''/box/'' [] rest = mid # split_from ''/box/'' [] post"
      using split_from_first[of "''/box/''" mid "[]" post] that by simp
    then show ?thesis by (simp add: sp template_index_def)
  qed
  have two: "template_index (split decodedText ''/box/'') 1 = rest" if "\<not> sublist ''/box/'' rest"
    using split_from_no_sep[OF that, of "[]"] by (simp add: sp template_index_def)
  show ?thesis
    using one two by (simp add: onScanSuccess_locator[OF inc])
qed

text \<open>Claim C9 on two scanned texts: one with a second marker inside the identifier region, one
  with a single marker.\<close>

theorem C9_locator_extraction_witness:
  "onScanSuccess ''https://example.local/box/b1/box/b2'' \<lparr>history = [], showScanner = True\<rparr>
     = \<lparr>history = [''/box/b1''], showScanner = False\<rparr>
   \<and> onScanSuccess ''https://example.local/box/b1'' \<lparr>history = [], showScanner = True\<rparr>
     = \<lparr>history = [''/box/b1''], showScanner = False\<rparr>"
proof -
  have a: "\<not> sublist ''/box/'' (''https://example.local'' @ ''/box'')"
    by (simp add: sublist_Cons_right)
  have b: "\<not> sublist ''/box/'' (''b1'' @ ''/box'')"
    by (simp add: sublist_Cons_right)
  have c: "\<not> sublist ''/box/'' ''b1''"
    by (simp add: sublist_Cons_right)
  from C9_locator_extraction_is_split_based[OF refl a, of "''b1/box/b2''" "''b1''" "''b2''"
      "\<lparr>history = [], showScanner = True\<rparr>"] b
  have "onScanSuccess ''https://example.local/box/b1/box/b2'' \<lparr>history = [], showScanner = True\<rparr>
     = \<lparr>history = [''/box/b1''], showScanner = False\<rparr>"
    by simp
  moreover
  from C9_locator_extraction_is_split_based[OF refl a, of "''b1''" "[]" "[]"
      "\<lparr>history = [], showScanner = True\<rparr>"] c
  have "onScanSuccess ''https://example.local/box/b1'' \<lparr>history = [], showScanner = True\<rparr>
     = \<lparr>history = [''/box/b1''], showScanner = False\<rparr>"
    by simp
  ultimately show ?thesis by simp
qed

text \<open>Occurrences of the marker are counted as the split finds them, left to right and
  without overlap: in \<^verbatim>\<open>/box/box/b1\<close> the marker occurs once, and the whole remainder is
  extracted.\<close>

lemma overlapping_markers:
  "onScanSuccess ''http://h/box/box/b1'' \<lparr>history = [], showScanner = True\<rparr>
     = \<lparr>history = [''/box/box/b1''], showScanner = False\<rparr>"
  by (simp add: onScanSuccess_def split_def template_index_def navigate_def onClose_def)

text \<open>The part that the locator recogniser extracts stands right behind the first marker of
  the text and ends at the end of the text or at the next marker.\<close>

lemma locator_id_follows_first_marker:
  assumes "sublist ''/box/'' t"
  shows "\<exists>pre boxId post. t = pre @ ''/box/'' @ boxId @ post
           \<and> \<not> sublist ''/box/'' (pre @ ''/box'')
           \<and> \<not> sublist ''/box/'' boxId
           \<and> (post = [] \<or> prefix ''/box/'' post)
           \<and> template_index (split t ''/box/'') 1 = boxId"
proof -
  from first_occurrence[OF assms] obtain pre rest
    where t: "t = pre @ ''/box/'' @ rest" and n: "\<not> sublist ''/box/'' (pre @ ''/box'')"
    by auto
  have sp: "split t ''/box/'' = pre # split_from ''/box/'' [] rest"
    unfolding t by (rule split_marker_first[OF n])
  show ?thesis
  proof (cases "sublist ''/box/'' rest")
    case True
    from first_occurrence[OF True] obtain mid post
      where r: "rest = mid @ ''/box/'' @ post" and m: "\<not> sublist ''/box/'' (mid @ ''/box'')"
      by auto
    from m have m': "\<not> sublist ''/box/'' mid" by (auto simp: sublist_append)
    have "split_from ''/box/'' [] rest = mid # split_from ''/box/'' [] post"
      using split_from_first[of "''/box/''" mid "[]" post] r m by simp
    then have "template_index (split t ''/box/'') 1 = mid" by (simp add: sp template_index_def)
    with t r n m' show ?thesis
      by (intro exI[of _ pre] exI[of _ mid] exI[of _ "''/box/'' @ post"]) simp
  next
    case False
    then have "template_index (split t ''/box/'') 1 = rest"
      using split_from_no_sep[OF False, of "[]"] by (simp add: sp template_index_def)
    with t n False show ?thesis by (intro exI[of _ pre] exI[of _ rest] exI[of _ "[]"]) simp
  qed
qed

text \<open>Claim C4, as the code has it. The recognisers are tried in order: a text that contains the
  marker \<^verbatim>\<open>/box/\<close> navigates to the part of the text that follows its first marker, up to
  the next marker or the end; otherwise a text of the identifier shape navigates to itself;
  otherwise nothing is navigated to. No branch
  throws, and every branch, the rejecting one included, ends with \<^verbatim>\<open>onClose()\<close>: the scanner
  dialog is closed.\<close>

theorem C4_recognizers_in_order_scanner_closed:
  "(sublist ''/box/'' t \<longrightarrow>
      (\<exists>pre boxId post. t = pre @ ''/box/'' @ boxId @ post
         \<and> \<not> sublist ''/box/'' (pre @ ''/box'')
         \<and> \<not> sublist ''/box/'' boxId
         \<and> (post = [] \<or> prefix ''/box/'' post)
         \<and> onScanSuccess t st =
           st\<lparr>history := (''/box/'' @ boxId) # history st, showScanner := False\<rparr>))
   \<and> (\<not> sublist ''/box/'' t \<and> uuid_shape t \<longrightarrow>
         onScanSuccess t st = st\<lparr>history := (''/box/'' @ t) # history st, showScanner := False\<rparr>)
   \<and> (\<not> sublist ''/box/'' t \<and> \<not> uuid_shape t \<longrightarrow>
         onScanSuccess t st = st\<lparr>showScanner := False\<rparr>)"
proof (intro conjI impI)
  assume a: "sublist ''/box/'' t"
  then have inc: "includes_str t ''/box/''" by (simp add: includes_str_sublist)
  from locator_id_follows_first_marker[OF a] obtain pre boxId post
    where "t = pre @ ''/box/'' @ boxId @ post" "\<not> sublist ''/box/'' (pre @ ''/box'')"
      "\<not> sublist ''/box/'' boxId" "post = [] \<or> prefix ''/box/'' post"
      "template_index (split t ''/box/'') 1 = boxId"
    by blast
  then show "\<exists>pre boxId post. t = pre @ ''/box/'' @ boxId @ post
         \<and> \<not> sublist ''/box/'' (pre @ ''/box'')
         \<and> \<not> sublist ''/box/'' boxId
         \<and> (post = [] \<or> prefix ''/box/'' post)
         \<and> onScanSuccess t st =
           st\<lparr>history := (''/box/'' @ boxId) # history st, showScanner := False\<rparr>"
    using onScanSuccess_locator[OF inc, of st] by auto
next
  assume "\<not> sublist ''/box/'' t \<and> uuid_shape t"
  then show "onScanSuccess t st = st\<lparr>history := (''/box/'' @ t) # history st, showScanner := False\<rparr>"
    by (simp add: onScanSuccess_def includes_str_sublist uuid_match_shape navigate_def onClose_def)
next
  assume "\<not> sublist ''/box/'' t \<and> \<not> uuid_shape t"
  then show "onScanSuccess t st = st\<lparr>showScanner := False\<rparr>"
    by (simp add: onScanSuccess_def includes_str_sublist uuid_match_shape onClose_def)
qed

text \<open>Three scanned texts, one for each branch.\<close>

lemma unrelated_text: "\<not> sublist ''/box/'' ''completely-unrelated-text''"  "\<not> uuid_match ''completely-unrelated-text''"
   apply (simp add: sublist_Cons_right)
  apply (simp add: uuid_eval)
  done

lemma sample_uuid: "\<not> sublist ''/box/'' ''123e4567-e89b-12d3-a456-426614174000''"
  "uuid_match ''123e4567-e89b-12d3-a456-426614174000''"
   apply (simp add: sublist_Cons_right)
  apply (simp add: uuid_eval)
  done

text \<open>Claim C4 on the three texts.\<close>

theorem C4_recognizers_witness:
  "(\<exists>pre boxId post. ''https://example.local/box/b1'' = pre @ ''/box/'' @ boxId @ post \<and>
      onScanSuccess ''https://example.local/box/b1'' \<lparr>history = [], showScanner = True\<rparr> =
        \<lparr>history = [''/box/'' @ boxId], showScanner = False\<rparr>)
   \<and> onScanSuccess ''123e4567-e89b-12d3-a456-426614174000'' \<lparr>history = [], showScanner = True\<rparr>
       = \<lparr>history = [''/box/123e4567-e89b-12d3-a456-426614174000''], showScanner = False\<rparr>
   \<and> onScanSuccess ''completely-unrelated-text'' \<lparr>history = [], showScanner = True\<rparr>
       = \<lparr>history = [], showScanner = False\<rparr>"
proof -
  let ?st = "\<lparr>history = [], showScanner = True\<rparr>"
  have a: "sublist ''/box/'' ''https://example.local/box/b1''" by (simp add: sublist_Cons_right)
  note u = unrelated_text[unfolded uuid_match_shape] and v = sample_uuid[unfolded uuid_match_shape]
  from conjunct1[OF C4_recognizers_in_order_scanner_closed[of "''https://example.local/box/b1''" ?st], THEN mp, OF a]
  obtain pre boxId post where "''https://example.local/box/b1'' = pre @ ''/box/'' @ boxId @ post"
    "onScanSuccess ''https://example.local/box/b1'' ?st =
        ?st\<lparr>history := (''/box/'' @ boxId) # history ?st, showScanner := False\<rparr>"
    by blast
  then have "\<exists>pre boxId post. ''https://example.local/box/b1'' = pre @ ''/box/'' @ boxId @ post \<and>
      onScanSuccess ''https://example.local/box/b1'' ?st =
        \<lparr>history = [''/box/'' @ boxId], showScanner = False\<rparr>"
    by (intro exI[of _ pre] exI[of _ boxId] exI[of _ post]) simp
  then show ?thesis
    using C4_recognizers_in_order_scanner_closed[of "''123e4567-e89b-12d3-a456-426614174000''" ?st]
      C4_recognizers_in_order_scanner_closed[of "''completely-unrelated-text''" ?st]
      u v
    by simp
qed

text \<open>Claim C4 as stated fails: a text that neither recogniser accepts still changes the
  state, since the scanner dialog is closed.\<close>

theorem C4_rejection_changes_state_counterexample:
  "\<not> includes_str ''completely-unrelated-text'' ''/box/''
   \<and> \<not> uuid_match ''completely-unrelated-text''
   \<and> onScanSuccess ''completely-unrelated-text'' \<lparr>history = [], showScanner = True\<rparr>
       \<noteq> \<lparr>history = [], showScanner = True\<rparr>"
  using unrelated_text
  by (simp add: onScanSuccess_def includes_str_sublist onClose_def)

text \<open>Claim C1 at the origin \<^verbatim>\<open>http://box\<close>: the locator of a valid identifier is
  \<^verbatim>\<open>http://box/box/<id>\<close>, whose first marker starts at the second slash of the scheme
  separator, so the handler navigates to \<^verbatim>\<open>/box/box/<id>\<close> and the identifier is not
  recovered.\<close>

theorem C1_roundtrip_fails_when_host_is_box:
  "origin_shape ''http://box''
   \<and> uuid_match ''123e4567-e89b-12d3-a456-426614174000''
   \<and> onScanSuccess (generateQRCode_url ''http://box'' ''123e4567-e89b-12d3-a456-426614174000'')
        \<lparr>history = [], showScanner = True\<rparr>
       = \<lparr>history = [''/box/box/123e4567-e89b-12d3-a456-426614174000''], showScanner = False\<rparr>"
proof -
  have "origin_shape ''http://box''"
    unfolding origin_shape_def by (intro exI[of _ "''http''"] exI[of _ "''box''"]) simp
  moreover have "onScanSuccess (generateQRCode_url ''http://box'' ''123e4567-e89b-12d3-a456-426614174000'')
        \<lparr>history = [], showScanner = True\<rparr>
       = \<lparr>history = [''/box/box/123e4567-e89b-12d3-a456-426614174000''], showScanner = False\<rparr>"
    by (simp add: onScanSuccess_def generateQRCode_url_def split_def template_index_def
      navigate_def onClose_def)
  ultimately show ?thesis using sample_uuid(2) by simp
qed

subsection \<open>Encoding and then decoding\<close>

text \<open>Scenarios 3 and 4 of the specification: the locator of \<^verbatim>\<open>b1\<close> under the origin
  \<^verbatim>\<open>https://example.local\<close> is read back as \<^verbatim>\<open>b1\<close>, and the bare text \<^verbatim>\<open>b1\<close> is rejected.\<close>

lemma codec_scenarios:
  "onScanSuccess (generateQRCode_url ''https://example.local'' ''b1'')
       \<lparr>history = [], showScanner = True\<rparr>
     = \<lparr>history = [''/box/b1''], showScanner = False\<rparr>"
  "onScanSuccess ''b1'' \<lparr>history = [], showScanner = True\<rparr>
     = \<lparr>history = [], showScanner = False\<rparr>"
   apply (simp add: onScanSuccess_def generateQRCode_url_def split_def template_index_def
      navigate_def onClose_def)
  apply (simp add: onScanSuccess_def onClose_def uuid_eval)
  done

text \<open>Claim C1 holds for every other origin: when the origin does not end in \<^verbatim>\<open>/box\<close>, that
  is, when its host is not the word \<^verbatim>\<open>box\<close>, the first marker of the locator is the one
  that \<^verbatim>\<open>generateQRCode\<close> wrote and the handler navigates to the identifier.\<close>

lemma uuid_shape_no_slash:
  assumes "uuid_shape boxId"
  shows "CHR ''/'' \<notin> set boxId"
proof -
  have "\<not> is_hex_digit CHR ''/''" by (simp add: is_hex_digit_def)
  with assms show ?thesis unfolding uuid_shape_def by auto
qed

lemma no_marker_in_identifier:
  assumes "uuid_shape boxId"
  shows "\<not> sublist ''/box/'' boxId"
proof
  assume "sublist ''/box/'' boxId"
  then have "set ''/box/'' \<subseteq> set boxId" by (rule set_mono_sublist)
  with uuid_shape_no_slash[OF assms] show False by simp
qed

lemma first_split_unique:
  assumes "x \<notin> set xs" "x \<notin> set xs'" "xs @ x # ys = xs' @ x # ys'"
  shows "ys = ys'"
  using assms
proof (induction xs arbitrary: xs')
  case Nil
  then show ?case by (cases xs') auto
next
  case (Cons a xs)
  then show ?case by (cases xs') auto
qed

lemma no_marker_in_origin:
  assumes "origin_shape origin"
  shows "\<not> sublist ''/box/'' origin"
proof
  assume "sublist ''/box/'' origin"
  then obtain ps ss where o: "origin = ps @ ''/box/'' @ ss" by (auto simp: sublist_def)
  from assms obtain scheme host where
    sh: "origin = scheme @ ''://'' @ host" "CHR ''/'' \<notin> set scheme" "CHR ''/'' \<notin> set host"
    unfolding origin_shape_def by blast
  let ?a = "scheme @ '':''"
  have na: "CHR ''/'' \<notin> set ?a" using sh(2) by simp
  have eq: "ps @ CHR ''/'' # (''box/'' @ ss) = ?a @ CHR ''/'' # (CHR ''/'' # host)"
    using o sh(1) by simp
  show False
  proof (cases "CHR ''/'' \<in> set ps")
    case False
    from first_split_unique[OF False na eq]
    have "''box/'' @ ss = CHR ''/'' # host" .
    then show False by simp
  next
    case True
    then obtain p1 p2 where ps: "ps = p1 @ CHR ''/'' # p2" "CHR ''/'' \<notin> set p1"
      by (meson split_list_first)
    with eq have e2: "p1 @ CHR ''/'' # (p2 @ CHR ''/'' # (''box/'' @ ss)) = ?a @ CHR ''/'' # (CHR ''/'' # host)"
      by simp
    from first_split_unique[OF ps(2) na e2]
    have r: "p2 @ CHR ''/'' # (''box/'' @ ss) = CHR ''/'' # host" .
    show False
    proof (cases p2)
      case Nil
      with r have "host = ''box/'' @ ss" by simp
      with sh(3) show False by simp
    next
      case (Cons c cs)
      with r have "host = cs @ CHR ''/'' # (''box/'' @ ss)" by simp
      with sh(3) show False by simp
    qed
  qed
qed

lemma no_early_marker_in_locator:
  assumes "origin_shape origin" "\<not> suffix ''/box'' origin"
  shows "\<not> sublist ''/box/'' (origin @ ''/box'')"
proof
  assume "sublist ''/box/'' (origin @ ''/box'')"
  then consider "sublist ''/box/'' origin" | "sublist ''/box/'' ''/box''"
    | m1 m2 where "''/box/'' = m1 @ m2" "suffix m1 origin" "prefix m2 ''/box''"
    unfolding sublist_append by blast
  then show False
  proof cases
    case 1
    with no_marker_in_origin[OF assms(1)] show False by simp
  next
    case 2
    then have "length ''/box/'' \<le> length ''/box''" by (rule sublist_length_le)
    then show False by simp
  next
    case 3
    from 3(3) have "m2 = [] \<or> m2 = ''/'' \<or> m2 = ''/b'' \<or> m2 = ''/bo'' \<or> m2 = ''/box''"
      by (auto simp: prefix_Cons)
    with 3(1) have "m1 = ''/box/'' \<or> m1 = ''/box''"
      by (auto simp: append_eq_Cons_conv Cons_eq_append_conv)
    with 3(2) assms(2) have "suffix ''/box/'' origin" by auto
    then have "sublist ''/box/'' origin" by (rule suffix_imp_sublist)
    with no_marker_in_origin[OF assms(1)] show False by simp
  qed
qed

lemma codec_roundtrip:
  assumes "origin_shape origin" "uuid_shape boxId" "\<not> suffix ''/box'' origin"
  shows "onScanSuccess (generateQRCode_url origin boxId) st
           = st\<lparr>history := (''/box/'' @ boxId) # history st, showScanner := False\<rparr>"
proof -
  have inc: "includes_str (generateQRCode_url origin boxId) ''/box/''"
    unfolding includes_str_sublist generateQRCode_url_def by (rule sublist_appendI)
  have "split (origin @ ''/box/'' @ boxId) ''/box/'' = origin # split_from ''/box/'' [] boxId"
    by (rule split_marker_first[OF no_early_marker_in_locator[OF assms(1,3)]])
  also have "split_from ''/box/'' [] boxId = [boxId]"
    using split_from_no_sep[OF no_marker_in_identifier[OF assms(2)], of "[]"] by simp
  finally have "template_index (split (generateQRCode_url origin boxId) ''/box/'') 1 = boxId"
    by (simp add: generateQRCode_url_def template_index_def)
  then show ?thesis by (simp add: onScanSuccess_locator[OF inc])
qed

section \<open>Properties of the list filters\<close>

subsection \<open>The search of the fuzzy matcher\<close>

lemma item_fuse_candidates: "map item (fuse_candidates sc opts docs q) = docs"
  by (simp add: fuse_candidates_def comp_def case_prod_unfold map_snd_enumerate)

lemma fuse_candidate_positions:
  assumes "r \<in> set (fuse_candidates sc opts docs q)"
  shows "refIndex r < length docs \<and> docs ! refIndex r = item r \<and> score r = sc opts q (item r)"
  using assms by (auto simp: fuse_candidates_def in_set_enumerate_eq)

lemma fuse_candidates_by_index:
  "sorted_wrt (\<lambda>a b. refIndex a < refIndex b) (fuse_candidates sc opts docs q)"
proof -
  have "map refIndex (fuse_candidates sc opts docs q) = [0..<length docs]"
    by (simp add: fuse_candidates_def comp_def case_prod_unfold)
  moreover have "sorted_wrt (<) [0..<length docs]" by (simp add: sorted_wrt_upt)
  ultimately have "sorted_wrt (<) (map refIndex (fuse_candidates sc opts docs q))" by simp
  then show ?thesis by (simp add: sorted_wrt_map)
qed

lemma insort_key_ranked:
  assumes "sorted_wrt ranked_before ys" "\<forall>y \<in> set ys. refIndex x < refIndex y"
  shows "sorted_wrt ranked_before (insort_key score x ys)"
  using assms
proof (induction ys)
  case Nil
  then show ?case by simp
next
  case (Cons y ys)
  show ?case
  proof (cases "score x \<le> score y")
    case True
    have "ranked_before x y" using True Cons.prems(2) by (auto simp: ranked_before_def)
    moreover have "ranked_before x z" if "z \<in> set ys" for z
    proof -
      from Cons.prems(1) that have "ranked_before y z" by auto
      with True Cons.prems(2) that show ?thesis by (auto simp: ranked_before_def)
    qed
    ultimately show ?thesis using True Cons.prems(1) by auto
  next
    case False
    then have "ranked_before y x" by (simp add: ranked_before_def)
    moreover from Cons have "sorted_wrt ranked_before (insort_key score x ys)" by simp
    ultimately show ?thesis using False Cons.prems(1) by (auto simp: set_insort_key)
  qed
qed

lemma sort_key_ranked:
  assumes "sorted_wrt (\<lambda>a b. refIndex a < refIndex b) xs"
  shows "sorted_wrt ranked_before (sort_key score xs)"
  using assms
proof (induction xs)
  case Nil
  then show ?case by simp
next
  case (Cons x xs)
  then have "sorted_wrt ranked_before (sort_key score xs)" by simp
  moreover from Cons.prems have "\<forall>y \<in> set (sort_key score xs). refIndex x < refIndex y" by simp
  ultimately show ?case by (simp add: insort_key_ranked)
qed

lemma fuse_search_ranked: "sorted_wrt ranked_before (fuse_search sc opts docs q)"
  unfolding fuse_search_def
  by (intro sort_key_ranked sorted_wrt_filter fuse_candidates_by_index)

lemma fuse_search_positions:
  assumes "r \<in> set (fuse_search sc opts docs q)"
  shows "refIndex r < length docs \<and> docs ! refIndex r = item r \<and> score r = sc opts q (item r)
    \<and> score r \<le> threshold opts"
  using assms fuse_candidate_positions[of r sc opts docs q] by (auto simp: fuse_search_def)

lemma fuse_search_items:
  "mset (map item (fuse_search sc opts docs q)) = mset (filter (\<lambda>d. sc opts q d \<le> threshold opts) docs)"
proof -
  have "map item (filter (\<lambda>r. score r \<le> threshold opts) (fuse_candidates sc opts docs q))
      = filter (\<lambda>d. sc opts q d \<le> threshold opts) docs"
  proof -
    have "filter (\<lambda>r. score r \<le> threshold opts) (fuse_candidates sc opts docs q)
        = filter (\<lambda>r. sc opts q (item r) \<le> threshold opts) (fuse_candidates sc opts docs q)"
      by (rule filter_cong) (auto dest: fuse_candidate_positions)
    then have "map item (filter (\<lambda>r. score r \<le> threshold opts) (fuse_candidates sc opts docs q))
        = filter (\<lambda>d. sc opts q d \<le> threshold opts) (map item (fuse_candidates sc opts docs q))"
      by (simp add: filter_map comp_def)
    then show ?thesis by (simp add: item_fuse_candidates)
  qed
  then show ?thesis
    unfolding fuse_search_def by (metis mset_map mset_sort)
qed

subsection \<open>The filters\<close>

text \<open>Evaluating the filters on a concrete collection.\<close>

lemmas filter_eval = filterItems_def filterBoxes_def fuse_search_def fuse_candidates_def
  itemOptions_def boxOptions_def js_0_4_def location_matches_def toLowerCase_def
  toLowerCase_char_def less_eq_char_def

text \<open>Claim C3, as the code has it. With the empty query both filters return every record of
  the collection in its original order, whatever the scoring. Every other query, a
  query of white space included, is truthy and is handed to the fuzzy search.\<close>

theorem C3_empty_query_returns_collection:
  "filterItems sc items [] = items
   \<and> filterBoxes lower bsc boxes [] [] = boxes
   \<and> (searchTerm \<noteq> [] \<longrightarrow>
        filterItems sc items searchTerm = map item (fuse_search sc itemOptions items searchTerm)
      \<and> filterBoxes lower bsc boxes searchTerm []
          = map item (fuse_search bsc boxOptions boxes searchTerm))"
  by (simp add: filterItems_def filterBoxes_def)

text \<open>Claim C3 as stated fails for a query of white space: the query of one space is searched
  for, and an item whose name has no space in it is filtered out.\<close>

theorem C3_blank_query_filters_counterexample:
  "list_all is_white_space '' ''
   \<and> filterItems name_scorer
        [\<lparr>item_id = ''i1'', item_box_id = ''b1'', item_name = ''Hammer'',
          item_quantity = Num 1, item_details = None\<rparr>] '' ''
      \<noteq> [\<lparr>item_id = ''i1'', item_box_id = ''b1'', item_name = ''Hammer'',
          item_quantity = Num 1, item_details = None\<rparr>]"
  by (simp add: filter_eval name_scorer_def is_white_space_def)

text \<open>Claim C3 on one item, with the empty query and with the query of one space.\<close>

theorem C3_empty_query_witness:
  "filterItems name_scorer
        [\<lparr>item_id = ''i1'', item_box_id = ''b1'', item_name = ''Hammer'',
          item_quantity = Num 1, item_details = None\<rparr>] []
     = [\<lparr>item_id = ''i1'', item_box_id = ''b1'', item_name = ''Hammer'',
          item_quantity = Num 1, item_details = None\<rparr>]
   \<and> filterItems name_scorer
        [\<lparr>item_id = ''i1'', item_box_id = ''b1'', item_name = ''Hammer'',
          item_quantity = Num 1, item_details = None\<rparr>] '' ''
     = map item (fuse_search name_scorer itemOptions
        [\<lparr>item_id = ''i1'', item_box_id = ''b1'', item_name = ''Hammer'',
          item_quantity = Num 1, item_details = None\<rparr>] '' '')"
  using C3_empty_query_returns_collection[where sc = name_scorer
      and items = "[\<lparr>item_id = ''i1'', item_box_id = ''b1'', item_name = ''Hammer'',
          item_quantity = Num 1, item_details = None\<rparr>]"
      and lower = toLowerCase and bsc = "\<lambda>opts q b. 0" and boxes = "[]"
      and searchTerm = "'' ''"]
  by simp

text \<open>Claim C5, as the code has it. Both filters configure the threshold 0.4, not 0.6. For a
  non-empty query a record that the matcher scores above 0.4 does not occur in the result,
  and a record that it scores below 0.4 occurs in the result as often as in the collection.
  The score is the dissimilarity that the matcher compares with its threshold. Nothing is
  said of a score of exactly 0.4.\<close>

theorem C5_threshold_is_0_4:
  assumes "searchTerm \<noteq> []"
  shows "(js_0_4 < sc itemOptions searchTerm r \<longrightarrow> r \<notin> set (filterItems sc items searchTerm))
       \<and> (sc itemOptions searchTerm r < js_0_4 \<longrightarrow>
            count (mset (filterItems sc items searchTerm)) r = count (mset items) r)
       \<and> (js_0_4 < bsc boxOptions searchTerm b \<longrightarrow>
            b \<notin> set (filterBoxes lower bsc boxes searchTerm []))
       \<and> (bsc boxOptions searchTerm b < js_0_4 \<longrightarrow>
            count (mset (filterBoxes lower bsc boxes searchTerm [])) b = count (mset boxes) b)"
proof -
  have i: "mset (filterItems sc items searchTerm)
      = mset (filter (\<lambda>r. sc itemOptions searchTerm r \<le> js_0_4) items)"
    using assms fuse_search_items[of sc itemOptions items searchTerm]
    by (simp add: filterItems_def itemOptions_def)
  have b: "mset (filterBoxes lower bsc boxes searchTerm [])
      = mset (filter (\<lambda>b. bsc boxOptions searchTerm b \<le> js_0_4) boxes)"
    using assms fuse_search_items[of bsc boxOptions boxes searchTerm]
    by (simp add: filterBoxes_def boxOptions_def)
  have "set (filterItems sc items searchTerm)
      = set (filter (\<lambda>r. sc itemOptions searchTerm r \<le> js_0_4) items)"
    using i by (rule mset_eq_setD)
  moreover have "set (filterBoxes lower bsc boxes searchTerm [])
      = set (filter (\<lambda>b. bsc boxOptions searchTerm b \<le> js_0_4) boxes)"
    using b by (rule mset_eq_setD)
  ultimately show ?thesis
    by (simp add: i b)
qed

text \<open>Claim C5 on the two items and the two boxes, with the query \<^verbatim>\<open>ab\<close>.\<close>

theorem C5_threshold_witness:
  "(item_ax, 1 / 2) \<notin> set (filterItems stored_scorer [(item_ax, 1 / 2), (item_ab, 0)] ''ab'')
   \<and> count (mset (filterItems stored_scorer [(item_ax, 1 / 2), (item_ab, 0)] ''ab'')) (item_ab, 0) = 1
   \<and> box_ax \<notin> set (filterBoxes toLowerCase box_sample_scorer [box_ax, box_ab] ''ab'' [])
   \<and> count (mset (filterBoxes toLowerCase box_sample_scorer [box_ax, box_ab] ''ab'' [])) box_ab = 1"
proof -
  have n: "item_ax \<noteq> item_ab" "box_ax \<noteq> box_ab"
    by (simp_all add: item_ax_def item_ab_def box_ax_def box_ab_def)
  have s: "box_sample_scorer boxOptions ''ab'' box_ax = 1 / 2"
    "box_sample_scorer boxOptions ''ab'' box_ab = 0"
    by (simp_all add: box_sample_scorer_def box_ax_def box_ab_def)
  show ?thesis
    using C5_threshold_is_0_4[where searchTerm = "''ab''" and sc = stored_scorer
        and items = "[(item_ax, 1 / 2), (item_ab, 0)]" and r = "(item_ax, 1 / 2)"
        and lower = toLowerCase and bsc = box_sample_scorer and boxes = "[box_ax, box_ab]"
        and b = box_ax]
      C5_threshold_is_0_4[where searchTerm = "''ab''" and sc = stored_scorer
        and items = "[(item_ax, 1 / 2), (item_ab, 0)]" and r = "(item_ab, 0)"
        and lower = toLowerCase and bsc = box_sample_scorer and boxes = "[box_ax, box_ab]"
        and b = box_ab]
    by (simp add: stored_scorer_def js_0_4_def n s)
qed

text \<open>Claim C5 as stated fails: the item whose two fields are \<^verbatim>\<open>ax\<close> has the dissimilarity
  0.5 for the query \<^verbatim>\<open>ab\<close>, below the claimed bound of 0.6, and it is excluded.\<close>

theorem C5_score_half_excluded_counterexample:
  "stored_scorer itemOptions ''ab'' (item_ax, 1 / 2) < 6 / 10
   \<and> filterItems stored_scorer [(item_ax, 1 / 2)] ''ab'' = []"
  by (simp add: filter_eval stored_scorer_def)

text \<open>With an empty query every record keeps its position and gets the neutral score 0.\<close>

lemma neutral_results:
  "\<exists>rs. docs = map item rs \<and> sorted_wrt ranked_before rs \<and>
        (\<forall>r \<in> set rs. refIndex r < length docs \<and> docs ! refIndex r = item r \<and> score r = 0)"
proof -
  let ?rs = "fuse_candidates (\<lambda>opts q d. 0) itemOptions docs []"
  have "sorted_wrt ranked_before ?rs"
    using fuse_candidates_by_index[of "\<lambda>opts q d. 0" itemOptions docs "[]"]
    by (rule sorted_wrt_mono_rel[rotated]) (auto simp: ranked_before_def dest!: fuse_candidate_positions)
  then show ?thesis
    using item_fuse_candidates[of "\<lambda>opts q d. 0" itemOptions docs "[]"]
    by (intro exI[of _ ?rs]) (auto dest: fuse_candidate_positions)
qed

text \<open>Claim C6. The output of either filter is the list of records of a result list that is
  in ascending order of score, ties in the order of the positions in the collection; each
  result carries a record of the collection at its position and its score: for a non-empty
  query the score that the scoring gives the record, for the empty query the neutral score
  0, so that the output is then in the order of the collection. The location filter of \<^verbatim>\<open>filterBoxes\<close> keeps
  that order. The filters are functions of their inputs, so equal inputs give equal
  outputs.\<close>

theorem C6_results_ranked_by_score_then_position:
  "(\<exists>rs. filterItems sc items searchTerm = map item rs
         \<and> sorted_wrt ranked_before rs
         \<and> (\<forall>r \<in> set rs. refIndex r < length items \<and> items ! refIndex r = item r
               \<and> (searchTerm \<noteq> [] \<longrightarrow> score r = sc itemOptions searchTerm (item r))
               \<and> (searchTerm = [] \<longrightarrow> score r = 0)))
   \<and> (\<exists>rs. filterBoxes lower bsc boxes searchTerm locationFilter = map item rs
         \<and> sorted_wrt ranked_before rs
         \<and> (\<forall>r \<in> set rs. refIndex r < length boxes \<and> boxes ! refIndex r = item r
               \<and> (searchTerm \<noteq> [] \<longrightarrow> score r = bsc boxOptions searchTerm (item r))
               \<and> (searchTerm = [] \<longrightarrow> score r = 0)))"
proof (cases "searchTerm = []")
  case True
  from neutral_results[of items] obtain rs where rs: "items = map item rs" "sorted_wrt ranked_before rs"
    "\<forall>r \<in> set rs. refIndex r < length items \<and> items ! refIndex r = item r \<and> score r = 0"
    by blast
  from neutral_results[of boxes] obtain bs where bs: "boxes = map item bs" "sorted_wrt ranked_before bs"
    "\<forall>r \<in> set bs. refIndex r < length boxes \<and> boxes ! refIndex r = item r \<and> score r = 0"
    by blast
  let ?P = "\<lambda>r. locationFilter \<noteq> [] \<longrightarrow> location_matches lower locationFilter (item r)"
  have "filterBoxes lower bsc boxes searchTerm locationFilter = map item (filter ?P bs)"
    using True bs(1) by (cases "locationFilter = []") (simp_all add: filterBoxes_def filter_map comp_def)
  moreover have "sorted_wrt ranked_before (filter ?P bs)" using bs(2) by (rule sorted_wrt_filter)
  ultimately have "\<exists>rs. filterBoxes lower bsc boxes searchTerm locationFilter = map item rs
         \<and> sorted_wrt ranked_before rs
         \<and> (\<forall>r \<in> set rs. refIndex r < length boxes \<and> boxes ! refIndex r = item r
               \<and> (searchTerm \<noteq> [] \<longrightarrow> score r = bsc boxOptions searchTerm (item r))
               \<and> (searchTerm = [] \<longrightarrow> score r = 0))"
    using bs(3) True by (intro exI[of _ "filter ?P bs"]) auto
  moreover have "\<exists>rs. filterItems sc items searchTerm = map item rs
         \<and> sorted_wrt ranked_before rs
         \<and> (\<forall>r \<in> set rs. refIndex r < length items \<and> items ! refIndex r = item r
               \<and> (searchTerm \<noteq> [] \<longrightarrow> score r = sc itemOptions searchTerm (item r))
               \<and> (searchTerm = [] \<longrightarrow> score r = 0))"
    using rs True by (intro exI[of _ rs]) (auto simp: filterItems_def)
  ultimately show ?thesis by blast
next
  case False
  let ?rs = "fuse_search sc itemOptions items searchTerm"
  let ?bs = "fuse_search bsc boxOptions boxes searchTerm"
  let ?P = "\<lambda>r. locationFilter \<noteq> [] \<longrightarrow> location_matches lower locationFilter (item r)"
  have "filterBoxes lower bsc boxes searchTerm locationFilter = map item (filter ?P ?bs)"
    using False by (cases "locationFilter = []") (simp_all add: filterBoxes_def filter_map comp_def)
  moreover have "sorted_wrt ranked_before (filter ?P ?bs)"
    by (intro sorted_wrt_filter fuse_search_ranked)
  ultimately have "\<exists>rs. filterBoxes lower bsc boxes searchTerm locationFilter = map item rs
         \<and> sorted_wrt ranked_before rs
         \<and> (\<forall>r \<in> set rs. refIndex r < length boxes \<and> boxes ! refIndex r = item r
               \<and> (searchTerm \<noteq> [] \<longrightarrow> score r = bsc boxOptions searchTerm (item r))
               \<and> (searchTerm = [] \<longrightarrow> score r = 0))"
    using False by (intro exI[of _ "filter ?P ?bs"]) (auto dest: fuse_search_positions)
  moreover have "\<exists>rs. filterItems sc items searchTerm = map item rs
         \<and> sorted_wrt ranked_before rs
         \<and> (\<forall>r \<in> set rs. refIndex r < length items \<and> items ! refIndex r = item r
               \<and> (searchTerm \<noteq> [] \<longrightarrow> score r = sc itemOptions searchTerm (item r))
               \<and> (searchTerm = [] \<longrightarrow> score r = 0))"
    using False fuse_search_ranked[of sc itemOptions items searchTerm]
    by (intro exI[of _ ?rs]) (auto simp: filterItems_def dest: fuse_search_positions)
  ultimately show ?thesis by blast
qed

text \<open>A collection with a tie; the fourth item is above the threshold.\<close>

lemma sample_ranking:
  "filterItems stored_scorer
      [(''Hammer'', 3 / 10), (''Hamper'', 1 / 10), (''Hummer'', 3 / 10), (''Saw'', 9 / 10)] ''hamer''
    = [(''Hamper'', 1 / 10), (''Hammer'', 3 / 10), (''Hummer'', 3 / 10)]"
  by (simp add: filter_eval stored_scorer_def)

text \<open>Claim C6 on that collection.\<close>

theorem C6_results_ranked_witness:
  "\<exists>rs. [(''Hamper'', 1 / 10 :: rat), (''Hammer'', 3 / 10), (''Hummer'', 3 / 10)] = map item rs
        \<and> sorted_wrt ranked_before rs
        \<and> map score rs = [1 / 10, 3 / 10, 3 / 10]"
proof -
  let ?items = "[(''Hammer'', 3 / 10), (''Hamper'', 1 / 10), (''Hummer'', 3 / 10), (''Saw'', 9 / 10 :: rat)]"
  from C6_results_ranked_by_score_then_position[where sc = stored_scorer and items = ?items
      and searchTerm = "''hamer''" and lower = toLowerCase and bsc = "\<lambda>opts q b. 0"
      and boxes = "[]" and locationFilter = "[]"]
  obtain rs where rs: "filterItems stored_scorer ?items ''hamer'' = map item rs"
    "sorted_wrt ranked_before rs"
    "\<forall>r \<in> set rs. score r = stored_scorer itemOptions ''hamer'' (item r)"
    by auto
  from rs(1) have it: "map item rs = [(''Hamper'', 1 / 10), (''Hammer'', 3 / 10), (''Hummer'', 3 / 10)]"
    by (simp only: sample_ranking)
  from rs(3) have "map score rs = map (stored_scorer itemOptions ''hamer'') (map item rs)"
    by (simp add: comp_def)
  then have "map score rs = [1 / 10, 3 / 10, 3 / 10]"
    by (simp only: it) (simp add: stored_scorer_def)
  with rs(2) it show ?thesis by (intro exI[of _ rs]) simp
qed

text \<open>Claim C10. With a non-empty location filter the box list is the list left by the
  search stage restricted to the boxes that have a location whose lower-case form contains
  the lower-case form of the filter, whatever the case mapping \<open>lower\<close> of the language does
  to a string; a box without location is excluded, and the remaining boxes keep their
  order.\<close>

theorem C10_location_filter_drops_boxes_without_location:
  assumes "locationFilter \<noteq> []"
  shows "filterBoxes lower bsc boxes searchTerm locationFilter
           = filter (\<lambda>b. \<exists>l. box_location b = Some l
                         \<and> sublist (lower locationFilter) (lower l))
               (filterBoxes lower bsc boxes searchTerm [])
       \<and> (\<forall>b \<in> set (filterBoxes lower bsc boxes searchTerm locationFilter).
             box_location b \<noteq> None)
       \<and> subseq (filterBoxes lower bsc boxes searchTerm locationFilter)
                 (filterBoxes lower bsc boxes searchTerm [])"
proof -
  have lm: "location_matches lower locationFilter = (\<lambda>b. \<exists>l. box_location b = Some l
                         \<and> sublist (lower locationFilter) (lower l))"
    by (auto simp: location_matches_def includes_str_sublist fun_eq_iff split: option.splits)
  have eq: "filterBoxes lower bsc boxes searchTerm locationFilter
      = filter (location_matches lower locationFilter) (filterBoxes lower bsc boxes searchTerm [])"
    using assms by (simp add: filterBoxes_def)
  show ?thesis
    unfolding eq by (auto simp: lm)
qed

text \<open>Claim C10 on three boxes, one of them without location, with the case mapping of ASCII
  text.\<close>

theorem C10_location_filter_witness:
  "filterBoxes toLowerCase (\<lambda>opts q b. 0)
     [\<lparr>box_id = ''b1'', box_name = ''Garage Tools'', box_location = Some ''Garage Shelf'',
        box_description = None, item_count = 2\<rparr>,
      \<lparr>box_id = ''b2'', box_name = ''Kitchen Items'', box_location = None,
        box_description = None, item_count = 0\<rparr>,
      \<lparr>box_id = ''b3'', box_name = ''Books'', box_location = Some ''Attic'',
        box_description = None, item_count = 5\<rparr>] [] ''gArAgE''
   = [\<lparr>box_id = ''b1'', box_name = ''Garage Tools'', box_location = Some ''Garage Shelf'',
        box_description = None, item_count = 2\<rparr>]"
proof -
  have a: "sublist (toLowerCase ''gArAgE'') (toLowerCase ''Garage Shelf'')"
    by (simp add: toLowerCase_def toLowerCase_char_def less_eq_char_def sublist_Cons_right)
  have b: "\<not> sublist (toLowerCase ''gArAgE'') (toLowerCase ''Attic'')"
    by (simp add: toLowerCase_def toLowerCase_char_def less_eq_char_def sublist_Cons_right)
  have c: "filterBoxes toLowerCase (\<lambda>opts q b. 0) bs [] [] = bs" for bs
    by (simp add: filterBoxes_def)
  show ?thesis
    using C10_location_filter_drops_boxes_without_location[where locationFilter = "''gArAgE''"
        and lower = toLowerCase and bsc = "\<lambda>opts q b. 0" and searchTerm = "[]"] a b
    by (simp add: c)
qed

section \<open>Properties of the highlighter\<close>

text \<open>Evaluating the highlighter on a concrete text and query.\<close>

lemmas highlight_eval = highlightMatch_def RegExp_def is_syntax_char_def regex_split_def
  canonicalize_def toLowerCase_def toLowerCase_char_def toUpperCase_char_def less_eq_char_def

text \<open>Claim C2 at two queries with a parenthesis. The query \<^verbatim>\<open>(spare\<close> makes the expression
  \<^verbatim>\<open>((spare)\<close>, and the constructor throws. The query \<^verbatim>\<open>(spare)\<close> makes the expression
  \<^verbatim>\<open>((spare))\<close> with two groups, the split emits both captures, and the segments of
  \<^verbatim>\<open>Cables (spare)\<close> concatenate to \<^verbatim>\<open>Cables (sparespare)\<close>.\<close>

theorem C2_highlight_throws_and_duplicates:
  "highlightMatch ''Cables (spare)'' ''(spare'' = Inl SyntaxError
   \<and> map_sum id (\<lambda>segments. concat (map fst segments))
         (highlightMatch ''Cables (spare)'' ''(spare)'') = Inr ''Cables (sparespare)''"
  by (simp add: highlight_eval)

text \<open>Claim C7 at the query \<^verbatim>\<open>(spare)\<close>: the text \<^verbatim>\<open>Cables (spare)\<close> holds the query literally,
  the literal scan marks it, and the highlighter marks nothing.\<close>

theorem C7_highlight_misses_literal_occurrence:
  "highlightMatch ''Cables (spare)'' ''(spare)''
     = Inr [(''Cables ('', False), (''spare'', False), (''spare'', False), ('')'', False)]
   \<and> literal_segments ''(spare)'' [] ''Cables (spare)''
     = [(''Cables '', False), (''(spare)'', True), ([], False)]"
  by (simp add: highlight_eval)

text \<open>Scenario 5 of the specification, and the empty query.\<close>

lemma highlight_scenario:
  "highlightMatch ''Garage Tools'' ''tool''
     = Inr [(''Garage '', False), (''Tool'', True), (''s'', False)]"
  by (simp add: highlight_eval)

lemma highlight_empty_query: "highlightMatch t [] = Inr [(t, False)]"
  by (simp add: highlightMatch_def)


text \<open>Comparing after \<^verbatim>\<open>toUpperCase\<close> and after \<^verbatim>\<open>toLowerCase\<close> is the same comparison.\<close>

lemma lower_of_upper: "toLowerCase_char (toUpperCase_char c) = toLowerCase_char c"
  apply (cases c)
  apply (simp add: toLowerCase_char_def toUpperCase_char_def less_eq_char_def)
  done

lemma upper_of_lower: "toUpperCase_char (toLowerCase_char c) = toUpperCase_char c"
  apply (cases c)
  apply (simp add: toLowerCase_char_def toUpperCase_char_def less_eq_char_def)
  done

lemma case_fold: "toUpperCase_char a = toUpperCase_char b \<longleftrightarrow> toLowerCase_char a = toLowerCase_char b"
  by (metis lower_of_upper upper_of_lower)

text \<open>The executable test of a class under the flag \<^verbatim>\<open>i\<close> is the test of the language
  definition: some member of the class has the canonical form of the character.\<close>

lemma one_case: "toLowerCase_char a = a \<or> toUpperCase_char a = a"
  apply (cases a)
  apply (simp add: toLowerCase_char_def toUpperCase_char_def less_eq_char_def)
  done

lemma class_matches_canonical:
  "class_matches True rs c \<longleftrightarrow> (\<exists>a. in_ranges rs a \<and> canonicalize True a = canonicalize True c)"
proof
  assume "class_matches True rs c"
  then consider "in_ranges rs c" | "in_ranges rs (toLowerCase_char c)" | "in_ranges rs (toUpperCase_char c)"
    by (auto simp: class_matches_def)
  then show "\<exists>a. in_ranges rs a \<and> canonicalize True a = canonicalize True c"
  proof cases
    case 1
    then show ?thesis by auto
  next
    case 2
    then show ?thesis by (intro exI[of _ "toLowerCase_char c"]) (simp add: canonicalize_def upper_of_lower)
  next
    case 3
    then show ?thesis
      by (intro exI[of _ "toUpperCase_char c"]) (simp add: canonicalize_def case_fold lower_of_upper)
  qed
next
  assume "\<exists>a. in_ranges rs a \<and> canonicalize True a = canonicalize True c"
  then obtain a where a: "in_ranges rs a" "toUpperCase_char a = toUpperCase_char c"
    by (auto simp: canonicalize_def)
  from one_case[of a] show "class_matches True rs c"
  proof
    assume "toLowerCase_char a = a"
    moreover from a(2) have "toLowerCase_char a = toLowerCase_char c" by (simp add: case_fold)
    ultimately show ?thesis using a(1) by (simp add: class_matches_def)
  next
    assume "toUpperCase_char a = a"
    with a show ?thesis by (simp add: class_matches_def)
  qed
qed

text \<open>On ASCII text, for a query without syntax characters the highlighter is the literal
  scan, and its segments concatenate to the text.\<close>

lemma parse_literals:
  assumes "list_all (\<lambda>c. \<not> is_syntax_char c) q"
  shows "parse_pattern stack cur (q @ rest) = parse_pattern stack (literals cur q) rest"
  using assms
proof (induction q arbitrary: cur)
  case Nil
  then show ?case by simp
next
  case (Cons c q)
  then have "\<not> is_syntax_char c" by simp
  then have "c \<noteq> CHR ''(''" "c \<noteq> CHR '')''" by (auto simp: is_syntax_char_def)
  with Cons show ?case by simp
qed

lemma RegExp_literal:
  assumes "list_all (\<lambda>c. \<not> is_syntax_char c) q"
  shows "RegExp (''('' @ q @ '')'') = Inr (Seq Empty (Group (literals Empty q)))"
  using parse_literals[OF assms, of "[Empty]" Empty "'')''"]
  by (simp add: RegExp_def)

lemma rmatch_literals:
  "rmatch True (literals cur q) s =
     (case rmatch True cur s of
        None \<Rightarrow> None
      | Some (caps, s1) \<Rightarrow>
          if toLowerCase (take (length q) s1) = toLowerCase q
          then Some (caps, drop (length q) s1) else None)"
proof (induction q arbitrary: cur)
  case Nil
  then show ?case by (simp add: toLowerCase_def split: option.splits)
next
  case (Cons c q)
  show ?case
    unfolding foldl_Cons Cons.IH
    by (auto simp: toLowerCase_def canonicalize_def case_fold split: option.splits list.splits)
qed

lemma toLowerCase_take_eq:
  assumes "toLowerCase (take (length q) s) = toLowerCase q"
  shows "length q \<le> length s"
proof -
  from assms have "length (take (length q) s) = length q"
    unfolding toLowerCase_def by (metis length_map)
  then show ?thesis by simp
qed

lemma rmatch_literal_group:
  "rmatch True (Seq Empty (Group (literals Empty q))) s =
     (if toLowerCase (take (length q) s) = toLowerCase q
      then Some ([take (length q) s], drop (length q) s) else None)"
  using toLowerCase_take_eq[of q s]
  by (auto simp: rmatch_literals)

lemma piece_not_query:
  assumes "q \<noteq> []" "piece \<noteq> [] \<longrightarrow> toLowerCase (take (length q) (piece @ s)) \<noteq> toLowerCase q"
  shows "toLowerCase piece \<noteq> toLowerCase q"
proof
  assume e: "toLowerCase piece = toLowerCase q"
  then have l: "length piece = length q" unfolding toLowerCase_def by (metis length_map)
  with assms(1) have "piece \<noteq> []" by auto
  moreover from l have "take (length q) (piece @ s) = piece" by simp
  ultimately show False using assms(2) e by simp
qed

lemma split_loop_literal:
  assumes "q \<noteq> []"
    and "piece \<noteq> [] \<longrightarrow> toLowerCase (take (length q) (piece @ s)) \<noteq> toLowerCase q"
  shows "map (\<lambda>part. (part, toLowerCase part = toLowerCase q))
             (split_loop (Seq Empty (Group (literals Empty q))) piece s)
           = literal_segments q piece s"
  using assms
proof (induction q piece s rule: literal_segments.induct)
  case (1 query piece)
  from piece_not_query[OF "1.prems"] show ?case by simp
next
  case (2 query piece c cs)
  note np = piece_not_query[OF "2.prems"]
  show ?case
  proof (cases "toLowerCase (take (length query) (c # cs)) = toLowerCase query")
    case True
    from "2.prems"(1) obtain n where n: "length query = Suc n" by (cases query) auto
    from toLowerCase_take_eq[OF True] n have "n \<le> length cs" by simp
    then have lr: "length (drop (length query) (c # cs)) \<noteq> Suc (length cs)" by (simp add: n)
    have dr: "drop (length query) (c # cs) = drop (length query - 1) cs" by (simp add: n)
    have "map (\<lambda>part. (part, toLowerCase part = toLowerCase query))
             (split_loop (Seq Empty (Group (literals Empty query))) [] (drop (length query - 1) cs))
           = literal_segments query [] (drop (length query - 1) cs)"
      using "2.IH"(1)[OF True "2.prems"(1)] by simp
    with True np lr show ?thesis
      by (simp add: rmatch_literal_group dr del: rmatch.simps drop_Suc_Cons take_Suc_Cons)
  next
    case False
    have "piece @ [c] \<noteq> [] \<longrightarrow>
        toLowerCase (take (length query) ((piece @ [c]) @ cs)) \<noteq> toLowerCase query"
      using False "2.prems"(2) by (cases "piece = []") auto
    from "2.IH"(2)[OF False "2.prems"(1) this] False show ?thesis
      by (simp add: rmatch_literal_group del: rmatch.simps take_Suc_Cons)
  qed
qed

theorem highlight_literal_query:
  assumes "literal_query q" "ascii_text q" "ascii_text t"
  shows "highlightMatch t q = Inr (literal_segments q [] t)"
proof -
  from assms(1) have q: "q \<noteq> []" and l: "list_all (\<lambda>c. \<not> is_syntax_char c) q"
    by (auto simp: literal_query_def)
  let ?re = "Seq Empty (Group (literals Empty q))"
  have "map (\<lambda>part. (part, toLowerCase part = toLowerCase q)) (regex_split ?re t)
      = literal_segments q [] t"
  proof (cases t)
    case Nil
    with q show ?thesis
      by (simp add: regex_split_def rmatch_literal_group toLowerCase_def del: rmatch.simps)
  next
    case (Cons c cs)
    then show ?thesis using split_loop_literal[OF q, of "[]" t] by (simp add: regex_split_def)
  qed
  with q show ?thesis by (simp add: highlightMatch_def RegExp_literal[OF l, simplified])
qed

lemma literal_segments_concat:
  assumes "q \<noteq> []"
  shows "concat (map fst (literal_segments q piece s)) = piece @ s"
  using assms
proof (induction q piece s rule: literal_segments.induct)
  case (1 query piece)
  then show ?case by simp
next
  case (2 query piece c cs)
  show ?case
  proof (cases "toLowerCase (take (length query) (c # cs)) = toLowerCase query")
    case True
    from "2.prems" obtain n where n: "length query = Suc n" by (cases query) auto
    have "take (length query) (c # cs) @ drop (length query - 1) cs = c # cs"
      by (simp add: n)
    with True "2.IH"(1)[OF True "2.prems"] show ?thesis by simp
  next
    case False
    with "2.IH"(2)[OF False "2.prems"] show ?thesis by simp
  qed
qed

theorem highlight_roundtrip_literal_query:
  assumes "literal_query q" "ascii_text q" "ascii_text t"
  shows "\<exists>segments. highlightMatch t q = Inr segments \<and> concat (map fst segments) = t"
  using highlight_literal_query[OF assms] assms(1) literal_segments_concat[of q "[]" t]
  by (simp add: literal_query_def)

section \<open>Properties of the item quantities\<close>

text \<open>Evaluating \<^verbatim>\<open>parseInt\<close> on a concrete input.\<close>

lemmas parseInt_eval = parseInt_def is_white_space_def is_radix_digit_def radix_digit_def
  digit_of_def less_eq_char_def

text \<open>Claim C8 at the inline editor: the Save button hands on \<^verbatim>\<open>parseInt(value)\<close> as it is, so
  the inputs \<^verbatim>\<open>0\<close>, the empty input and \<^verbatim>\<open>-3\<close> send the quantities 0, \<^verbatim>\<open>NaN\<close> and -3.\<close>

theorem C8_update_sends_quantity_zero:
  "payload_quantity (save_onClick ''Hammer'' ''0'' []) = Num 0
   \<and> \<not> valid_quantity (payload_quantity (save_onClick ''Hammer'' ''0'' []))
   \<and> payload_quantity (save_onClick ''Hammer'' [] []) = NaN
   \<and> payload_quantity (save_onClick ''Hammer'' ''-3'' []) = Num (- 3)"
  by (simp add: parseInt_eval save_onClick_def valid_quantity_def)

text \<open>The add-item form replaces zero and \<^verbatim>\<open>NaN\<close> by 1.\<close>

lemma or_one_truthy: "or_one x \<noteq> NaN \<and> or_one x \<noteq> Num 0"
  by (simp add: or_one_def split: js_number.splits)

lemma add_form_quantity:
  "payload_quantity (quantity_onChange v formData) \<noteq> NaN
   \<and> payload_quantity (quantity_onChange v formData) \<noteq> Num 0"
  by (simp add: quantity_onChange_def or_one_truthy)

lemma add_form_examples:
  "payload_quantity (quantity_onChange ''0'' initial_formData) = Num 1"
  "payload_quantity (quantity_onChange [] initial_formData) = Num 1"
  "payload_quantity (quantity_onChange ''12'' initial_formData) = Num 12"
  by (simp_all add: parseInt_eval quantity_onChange_def or_one_def)

end
